theory Spec2Isabelle
  imports Main "HOL-Library.Stream"
begin

unbundle bit_operations_syntax

section \<open>The reversible linear congruential generator of rrng.py\<close>

text \<open>
  Python integers are unbounded, so every quantity is an \<open>int\<close>. Python's \<open>&\<close> on
  integers is the two's complement conjunction \<open>AND\<close> of HOL, \<open>//\<close> and \<open>%\<close> round
  towards minus infinity as \<open>div\<close> and \<open>mod\<close> do, and \<open>x >> d\<close> is \<open>drop_bit d x\<close>
  for a shift count \<open>d \<ge> 0\<close>.

  The methods \<open>next\<close>, \<open>prev\<close> and \<open>random\<close> are \<open>next_lcg\<close>, \<open>prev_lcg\<close> and
  \<open>random_lcg\<close> here, \<open>__next__\<close> is \<open>dunder_next\<close>, and \<open>_next_state\<close>,
  \<open>_prev_state\<close> and the two generator functions drop their leading underscore. A
  method takes the generator and returns it with its result, since it may assign to
  the fields.
\<close>

subsection \<open>Errors and results\<close>

text \<open>
  The exceptions the code can raise. \<open>NoReturn\<close> stands for a call that never hands a
  result back: \<open>np.fromiter\<close> with a negative count reads its iterator to the end, and
  the state generators have no end. \<open>ShiftError\<close> stands for NumPy's rejection of a
  negative shift count on an array of unsigned 64-bit integers.
\<close>

datatype error = AssertionError | ValueError | IndexError | OverflowError
  | ShiftError | NoReturn

text \<open>\<open>random\<close> returns one integer or an array of them.\<close>

datatype rand_out = Scalar int | Array "int list"

subsection \<open>Module-level functions\<close>

definition is_power_of_two :: "int \<Rightarrow> bool" where
  "is_power_of_two v \<longleftrightarrow> (v AND (v - 1)) = 0"

text \<open>
  The loop of \<open>xgcd_x\<close>, with the variables \<open>x_prev\<close>, \<open>x\<close>, \<open>a\<close>, \<open>b\<close> as arguments.
  \<open>while b\<close> runs as long as \<open>b\<close> is not zero.
\<close>

function xgcd_loop :: "int \<Rightarrow> int \<Rightarrow> int \<Rightarrow> int \<Rightarrow> int" where
  "xgcd_loop x_prev x a b =
     (if b \<noteq> 0
      then (let q = a div b in xgcd_loop x (x_prev - q * x) b (a mod b))
      else x_prev)"
  by pat_completeness auto
termination
  by (relation "measure (\<lambda>(x_prev, x, a, b). nat \<bar>b\<bar>)") (auto simp: abs_mod_less)

declare xgcd_loop.simps [simp del]

definition xgcd_x :: "int \<Rightarrow> int \<Rightarrow> int" where
  "xgcd_x a b = xgcd_loop 1 0 a b"

text \<open>
  The dictionary \<open>a_inverse_stored\<close> is a module-level variable; the model passes it in
  and hands it back.
\<close>

type_synonym a_inverse_stored = "int \<times> int \<rightharpoonup> int"

definition get_a_inverse_value ::
  "a_inverse_stored \<Rightarrow> int \<Rightarrow> int \<Rightarrow> int \<times> a_inverse_stored" where
  "get_a_inverse_value stored a b =
     (case stored (a, b) of
        Some v \<Rightarrow> (v, stored)
      | None \<Rightarrow> (let v = xgcd_x a b in (v, stored((a, b) \<mapsto> v))))"

text \<open>
  The dictionary is empty when the module is loaded and only \<open>get_a_inverse_value\<close>
  writes to it, so every entry it ever holds is a value of \<open>xgcd_x\<close>.
\<close>

definition stored_ok :: "a_inverse_stored \<Rightarrow> bool" where
  "stored_ok stored \<longleftrightarrow> (\<forall>a b v. stored (a, b) = Some v \<longrightarrow> v = xgcd_x a b)"

subsection \<open>Class ReversibleLCG\<close>

record lcg =
  self_x :: int
  self_m :: int
  self_a :: int
  self_c :: int
  self_d :: int
  self_a_inverse :: int
  forward :: bool

text \<open>
  \<open>__init__\<close>: the assertion on \<open>m\<close> is the only check. A failed assertion leaves the
  caller without an object and the dictionary untouched.
\<close>

definition ReversibleLCG_init ::
  "a_inverse_stored \<Rightarrow> int \<Rightarrow> int \<Rightarrow> int \<Rightarrow> int \<Rightarrow> int \<Rightarrow> error + lcg \<times> a_inverse_stored" where
  "ReversibleLCG_init stored seed m a c d =
     (if \<not> is_power_of_two m then Inl AssertionError
      else (let (a_inv, stored') = get_a_inverse_value stored a m
            in Inr (\<lparr>self_x = seed, self_m = m, self_a = a, self_c = c, self_d = d,
                     self_a_inverse = a_inv, forward = True\<rparr>, stored')))"

text \<open>The default arguments \<open>m=1<<63\<close>, \<open>a\<close>, \<open>c\<close> and \<open>d=32\<close> of \<open>__init__\<close>.\<close>

definition default_m :: int where "default_m = push_bit 63 1"
definition default_a :: int where "default_a = 6364136223846793005"
definition default_c :: int where "default_c = 1442695040888963407"
definition default_d :: int where "default_d = 32"

definition ReversibleLCG_default ::
  "a_inverse_stored \<Rightarrow> int \<Rightarrow> error + lcg \<times> a_inverse_stored" where
  "ReversibleLCG_default stored seed =
     ReversibleLCG_init stored seed default_m default_a default_c default_d"

text \<open>Python's \<open>v >> d\<close> raises \<open>ValueError\<close> for a negative shift count.\<close>

definition py_rshift :: "int \<Rightarrow> int \<Rightarrow> error + int" where
  "py_rshift v d = (if d < 0 then Inl ValueError else Inr (drop_bit (nat d) v))"

definition next_state :: "lcg \<Rightarrow> int" where
  "next_state g = (self_a g * self_x g + self_c g) AND (self_m g - 1)"

definition prev_state :: "lcg \<Rightarrow> int" where
  "prev_state g = (self_a_inverse g * (self_x g - self_c g)) AND (self_m g - 1)"

definition reverse :: "lcg \<Rightarrow> lcg" where
  "reverse g = g\<lparr>forward := \<not> forward g\<rparr>"

text \<open>
  \<open>next\<close> and \<open>prev\<close> store the new state first and shift afterwards; the generator
  they return is the one the caller is left with, also when the shift raises.
\<close>

definition next_lcg :: "lcg \<Rightarrow> (error + int) \<times> lcg" where
  "next_lcg g = (let g' = g\<lparr>self_x := next_state g\<rparr>
                 in (py_rshift (self_x g') (self_d g'), g'))"

definition prev_lcg :: "lcg \<Rightarrow> (error + int) \<times> lcg" where
  "prev_lcg g = (let g' = g\<lparr>self_x := prev_state g\<rparr>
                 in (py_rshift (self_x g') (self_d g'), g'))"

definition dunder_next :: "lcg \<Rightarrow> (error + int) \<times> lcg" where
  "dunder_next g = (if forward g then next_lcg g else prev_lcg g)"

subsection \<open>Class GeneratorLCGReversible\<close>

text \<open>\<open>__init__(self, seed=0)\<close> passes the seed on and takes every default.\<close>

definition GeneratorLCGReversible_init ::
  "a_inverse_stored \<Rightarrow> int \<Rightarrow> error + lcg \<times> a_inverse_stored" where
  "GeneratorLCGReversible_init stored seed = ReversibleLCG_default stored seed"

text \<open>
  The two static generator functions never stop yielding: each is a stream whose head is
  the state after one step.
\<close>

primcorec next_state_generator :: "int \<Rightarrow> int \<Rightarrow> int \<Rightarrow> int \<Rightarrow> int stream" where
  "shd (next_state_generator x m a c) = (a * x + c) AND (m - 1)"
| "stl (next_state_generator x m a c) = next_state_generator ((a * x + c) AND (m - 1)) m a c"

primcorec prev_state_generator :: "int \<Rightarrow> int \<Rightarrow> int \<Rightarrow> int \<Rightarrow> int stream" where
  "shd (prev_state_generator x m a_inv c) = (a_inv * (x - c)) AND (m - 1)"
| "stl (prev_state_generator x m a_inv c) =
     prev_state_generator ((a_inv * (x - c)) AND (m - 1)) m a_inv c"

text \<open>
  \<open>np.fromiter(gen, dtype='uint64', count=size)\<close>: a negative count asks for every item
  of a generator that has no last one; otherwise the first \<open>size\<close> items are read, and an
  item outside the range of an unsigned 64-bit integer raises \<open>OverflowError\<close>.
\<close>

definition fromiter_uint64 :: "int stream \<Rightarrow> int \<Rightarrow> error + int list" where
  "fromiter_uint64 gen count =
     (if count < 0 then Inl NoReturn
      else (let xs = stake (nat count) gen
            in if list_all (\<lambda>v. 0 \<le> v \<and> v < 2 ^ 64) xs then Inr xs
               else Inl OverflowError))"

text \<open>
  \<open>x >> self._d\<close> on the array: the count is converted to an unsigned 64-bit integer
  and each element is shifted by it; a shift by 64 or more bits leaves 0, as \<open>drop_bit\<close>
  does on a value below \<open>2 ^ 64\<close>. A count of \<open>2 ^ 64\<close> or more does not convert and
  raises \<open>OverflowError\<close>. NumPy does not shift by a negative count either: which
  exception it raises depends on its version, and the model reports \<open>ShiftError\<close>. The
  constructor of this class fixes \<open>d = 32\<close>, so that none of this arises on a generator
  it has made.
\<close>

definition array_rshift :: "int list \<Rightarrow> int \<Rightarrow> error + rand_out" where
  "array_rshift xs d =
     (if d < 0 then Inl ShiftError
      else if 2 ^ 64 \<le> d then Inl OverflowError
      else Inr (Array (map (drop_bit (nat d)) xs)))"

definition scalar_result :: "error + int \<Rightarrow> error + rand_out" where
  "scalar_result r = (case r of Inl e \<Rightarrow> Inl e | Inr v \<Rightarrow> Inr (Scalar v))"

text \<open>
  The body of \<open>random\<close> below its first \<open>if\<close>, where \<open>increment\<close> is 1 or -1 and \<open>sz\<close>
  is the argument \<open>size\<close>. Without a size and with \<open>update\<close> the call goes to
  \<open>__next__\<close>, which looks at \<open>forward\<close> and not at \<open>increment\<close>. With a size and
  \<open>update\<close> the last element \<open>x[-1]\<close> is stored before the array is shifted; on an empty
  array that index raises \<open>IndexError\<close>.
\<close>

definition random_body :: "lcg \<Rightarrow> int option \<Rightarrow> bool \<Rightarrow> int \<Rightarrow> (error + rand_out) \<times> lcg" where
  "random_body g sz update increment =
     (case sz of
        None \<Rightarrow>
          if update then (let (r, g') = dunder_next g in (scalar_result r, g'))
          else if increment = 1 then (scalar_result (py_rshift (next_state g) (self_d g)), g)
          else (scalar_result (py_rshift (prev_state g) (self_d g)), g)
      | Some n \<Rightarrow>
          (let gen = (if increment = 1
                      then next_state_generator (self_x g) (self_m g) (self_a g) (self_c g)
                      else prev_state_generator (self_x g) (self_m g) (self_a_inverse g) (self_c g))
           in case fromiter_uint64 gen n of
                Inl e \<Rightarrow> (Inl e, g)
              | Inr xs \<Rightarrow>
                  if update
                  then (if xs = [] then (Inl IndexError, g)
                        else (let g' = g\<lparr>self_x := last xs\<rparr>
                              in (array_rshift xs (self_d g'), g')))
                  else (array_rshift xs (self_d g), g)))"

text \<open>
  \<open>random(size, update, increment)\<close>. The result comes with the generator as the call
  leaves it, whether it returns or raises.
\<close>

definition random_lcg :: "lcg \<Rightarrow> int option \<Rightarrow> bool \<Rightarrow> int option \<Rightarrow> (error + rand_out) \<times> lcg" where
  "random_lcg g sz update increment =
     (case increment of
        None \<Rightarrow> random_body g sz update (if forward g then 1 else - 1)
      | Some i \<Rightarrow>
          if i \<noteq> - 1 \<and> i \<noteq> 1 then (Inl AssertionError, g)
          else random_body (if update then g\<lparr>forward := (i = 1)\<rparr> else g) sz update i)"

subsection \<open>Calling a stepping method several times\<close>

text \<open>
  \<open>[rng.next() for i in range(n)]\<close>: the method is called \<open>n\<close> times and the values are
  collected in order; an exception ends the loop.
\<close>

fun call_n :: "(lcg \<Rightarrow> (error + int) \<times> lcg) \<Rightarrow> nat \<Rightarrow> lcg \<Rightarrow> (error + int list) \<times> lcg" where
  "call_n step 0 g = (Inr [], g)"
| "call_n step (Suc n) g =
     (case step g of
        (Inl e, g') \<Rightarrow> (Inl e, g')
      | (Inr v, g') \<Rightarrow>
          (case call_n step n g' of
             (Inl e, g'') \<Rightarrow> (Inl e, g'')
           | (Inr vs, g'') \<Rightarrow> (Inr (v # vs), g'')))"

subsection \<open>Notions of the specification\<close>

text \<open>
  A power of two, in the words of the specification: \<open>2 ^ k\<close> for a natural number \<open>k\<close>.
\<close>

definition power_of_two :: "int \<Rightarrow> bool" where
  "power_of_two m \<longleftrightarrow> (\<exists>k::nat. m = 2 ^ k)"

text \<open>
  The parameters every \<open>GeneratorLCGReversible\<close> has: its constructor takes the defaults
  and no method assigns to them.
\<close>

definition default_parameters :: "lcg \<Rightarrow> bool" where
  "default_parameters g \<longleftrightarrow>
     self_m g = default_m \<and> self_a g = default_a \<and> self_c g = default_c \<and>
     self_d g = default_d"

text \<open>The state lies in \<open>[0, m)\<close>.\<close>

definition in_range :: "lcg \<Rightarrow> bool" where
  "in_range g \<longleftrightarrow> 0 \<le> self_x g \<and> self_x g < self_m g"

text \<open>
  The methods a client can call on a generator (\<open>next\<close>, \<open>prev\<close>, \<open>__next__\<close>,
  \<open>reverse\<close> and \<open>random\<close> with its three arguments), and the generator each call leaves
  behind, whether it returns or raises. An assignment to the attribute \<open>x\<close> is not a
  method call and is not among them.
\<close>

datatype call = Next | Prev | DunderNext | Reverse | Random "int option" bool "int option"

fun do_call :: "call \<Rightarrow> lcg \<Rightarrow> lcg" where
  "do_call Next g = snd (next_lcg g)"
| "do_call Prev g = snd (prev_lcg g)"
| "do_call DunderNext g = snd (dunder_next g)"
| "do_call Reverse g = reverse g"
| "do_call (Random sz update increment) g = snd (random_lcg g sz update increment)"

fun do_calls :: "call list \<Rightarrow> lcg \<Rightarrow> lcg" where
  "do_calls [] g = g"
| "do_calls (cl # cls) g = do_calls cls (do_call cl g)"

text \<open>
  A stepping operation: \<open>next\<close>, \<open>prev\<close>, \<open>__next__\<close>, or a call of \<open>random\<close> with
  \<open>update=True\<close> that returns.
\<close>

fun stepping_call :: "call \<Rightarrow> lcg \<Rightarrow> bool" where
  "stepping_call Next g = True"
| "stepping_call Prev g = True"
| "stepping_call DunderNext g = True"
| "stepping_call Reverse g = False"
| "stepping_call (Random sz update increment) g =
     (update \<and> (case fst (random_lcg g sz update increment) of Inr r \<Rightarrow> True | Inl e \<Rightarrow> False))"

section \<open>Properties\<close>

subsection \<open>Masking with \<open>m - 1\<close> and the test on \<open>m\<close>\<close>

lemma and_exp_minus_1: "(v::int) AND (2 ^ k - 1) = v mod 2 ^ k"
  by (simp flip: mask_eq_exp_minus_1 take_bit_eq_mask add: take_bit_eq_mod)

lemma and_pred_in_range:
  fixes v m :: int
  assumes "0 < m"
  shows "0 \<le> v AND (m - 1)" and "v AND (m - 1) < m"
proof -
  from assms have nonneg: "0 \<le> m - 1" by simp
  then show "0 \<le> v AND (m - 1)" by simp
  from nonneg have "v AND (m - 1) \<le> m - 1" by (rule AND_upper2)
  then show "v AND (m - 1) < m" by simp
qed

lemma is_power_of_two_exp: "is_power_of_two (2 ^ k)"
  by (simp add: is_power_of_two_def and_exp_minus_1)

lemma is_power_of_two_0: "is_power_of_two 0"
  by (simp add: is_power_of_two_def)

lemma is_power_of_two_not_neg:
  assumes "is_power_of_two v"
  shows "0 \<le> v"
proof (rule ccontr)
  assume "\<not> 0 \<le> v"
  then have "v < 0" and "v - 1 < 0" by simp_all
  then have "v AND (v - 1) < 0" by simp
  with assms show False by (simp add: is_power_of_two_def)
qed

lemma and_pred_even:
  fixes v :: int
  assumes "even v"
  shows "v AND (v - 1) = 2 * ((v div 2) AND (v div 2 - 1))"
proof -
  from assms obtain w where w: "v = 2 * w" by (elim evenE)
  have "(2 * w - 1) div 2 = w - 1" by simp
  then show ?thesis
    unfolding w by (subst and_int_rec) simp
qed

lemma and_pred_odd:
  fixes v :: int
  assumes "odd v"
  shows "v AND (v - 1) = 2 * (v div 2)"
proof -
  from assms obtain w where w: "v = 2 * w + 1" by (elim oddE)
  show ?thesis
    unfolding w by (subst and_int_rec) simp
qed

lemma is_power_of_two_pos_exp:
  fixes v :: int
  assumes "0 < v" and "v AND (v - 1) = 0"
  shows "\<exists>k::nat. v = 2 ^ k"
  using assms
proof (induction "nat v" arbitrary: v rule: less_induct)
  case less
  show ?case
  proof (cases "even v")
    case True
    then have half: "(v div 2) AND (v div 2 - 1) = 0"
      using less.prems(2) by (simp add: and_pred_even)
    from True less.prems(1) have pos: "0 < v div 2" by (auto elim: evenE)
    from less.prems(1) have "nat (v div 2) < nat v" by arith
    from less.hyps [OF this pos half] obtain k :: nat where "v div 2 = 2 ^ k" ..
    with True have "v = 2 ^ Suc k" by (auto elim: evenE)
    then show ?thesis ..
  next
    case False
    then have "v div 2 = 0"
      using less.prems(2) by (simp add: and_pred_odd)
    with False have "v = 1" by (auto elim: oddE)
    then have "v = 2 ^ (0::nat)" by simp
    then show ?thesis ..
  qed
qed

lemma is_power_of_two_iff:
  "is_power_of_two v \<longleftrightarrow> v = 0 \<or> (\<exists>k::nat. v = 2 ^ k)"
proof
  assume pow: "is_power_of_two v"
  show "v = 0 \<or> (\<exists>k::nat. v = 2 ^ k)"
  proof (cases "v = 0")
    case True
    then show ?thesis by simp
  next
    case False
    with is_power_of_two_not_neg [OF pow] have "0 < v" by simp
    moreover from pow have "v AND (v - 1) = 0" by (simp add: is_power_of_two_def)
    ultimately show ?thesis by (simp add: is_power_of_two_pos_exp)
  qed
next
  assume "v = 0 \<or> (\<exists>k::nat. v = 2 ^ k)"
  then show "is_power_of_two v"
    by (auto simp: is_power_of_two_0 is_power_of_two_exp)
qed

subsection \<open>The extended Euclidean algorithm\<close>

lemma xgcd_loop_0: "xgcd_loop x_prev x a 0 = x_prev"
  by (simp add: xgcd_loop.simps)

lemma xgcd_loop_rec:
  "b \<noteq> 0 \<Longrightarrow> xgcd_loop x_prev x a b = xgcd_loop x (x_prev - (a div b) * x) b (a mod b)"
  by (subst xgcd_loop.simps) (simp add: Let_def)

text \<open>
  The loop keeps \<open>x_prev\<close> and \<open>x\<close> as the coefficients of the first input \<open>a0\<close> in
  combinations of the two inputs that give the current \<open>a\<close> and \<open>b\<close>.
\<close>

lemma xgcd_loop_bezout:
  assumes "0 \<le> a" and "0 \<le> b"
    and "\<exists>y. a0 * x_prev + b0 * y = a" and "\<exists>y. a0 * x + b0 * y = b"
  shows "\<exists>y. a0 * xgcd_loop x_prev x a b + b0 * y = gcd a b"
  using assms
proof (induction x_prev x a b rule: xgcd_loop.induct)
  case (1 x_prev x a b)
  show ?case
  proof (cases "b = 0")
    case True
    with "1.prems" show ?thesis by (simp add: xgcd_loop_0)
  next
    case False
    with "1.prems"(2) have "0 < b" by simp
    then have rem: "0 \<le> a mod b" by simp
    from "1.prems"(3) obtain y1 where y1: "a0 * x_prev + b0 * y1 = a" ..
    from "1.prems"(4) obtain y2 where y2: "a0 * x + b0 * y2 = b" ..
    have "a mod b = a - (a div b) * b"
      by (simp add: minus_div_mult_eq_mod)
    also have "\<dots> = a0 * (x_prev - (a div b) * x) + b0 * (y1 - (a div b) * y2)"
      by (simp add: y1 [symmetric] y2 [symmetric] algebra_simps)
    finally have "\<exists>y. a0 * (x_prev - (a div b) * x) + b0 * y = a mod b"
      by (intro exI [of _ "y1 - (a div b) * y2"]) simp
    from "1.IH" [OF False refl "1.prems"(2) rem "1.prems"(4) this]
    obtain y where "a0 * xgcd_loop x (x_prev - (a div b) * x) b (a mod b) + b0 * y = gcd b (a mod b)" ..
    moreover have "gcd b (a mod b) = gcd a b"
      by (metis gcd.commute gcd_red_int)
    ultimately show ?thesis
      using False by (auto simp: xgcd_loop_rec)
  qed
qed

lemma xgcd_x_coefficient_nonneg:
  assumes "0 \<le> a" and "0 \<le> b"
  shows "\<exists>y. a * xgcd_x a b + b * y = gcd a b"
  unfolding xgcd_x_def
  by (rule xgcd_loop_bezout [OF assms]) (auto intro: exI [of _ 0] exI [of _ 1])

lemma xgcd_x_default: "xgcd_x default_a default_m = - 4568919932995229531"
  by (simp add: xgcd_x_def xgcd_loop_0 xgcd_loop_rec default_a_def default_m_def)

text \<open>
  C4: for non-negative integers \<open>a\<close> and \<open>b\<close>, \<open>xgcd_x a b\<close> is an integer \<open>x\<close> for
  which some integer \<open>y\<close> gives \<open>a * x + b * y = gcd a b\<close>; and \<open>xgcd_x 46 240\<close> is 47.
\<close>

theorem xgcd_x_bezout_coefficient:
  "(0 \<le> a \<and> 0 \<le> b \<longrightarrow> (\<exists>y. a * xgcd_x a b + b * y = gcd a b)) \<and> xgcd_x 46 240 = 47"
  by (simp add: xgcd_x_coefficient_nonneg) (simp add: xgcd_x_def xgcd_loop_0 xgcd_loop_rec)

theorem xgcd_x_bezout_coefficient_witness:
  "(0::int) \<le> 46 \<and> (0::int) \<le> 240 \<and> (\<exists>y. 46 * xgcd_x 46 240 + 240 * y = gcd 46 (240::int))"
proof -
  have "(0::int) \<le> 46 \<and> (0::int) \<le> 240" by simp
  with xgcd_x_bezout_coefficient [of 46 240] show ?thesis by blast
qed

text \<open>
  C9: \<open>is_power_of_two\<close> is true of 0, 1, 2, 8 and 256 and false of -1, 3, 9 and 257;
  the test \<open>v AND (v - 1) = 0\<close> accepts 0.
\<close>

theorem is_power_of_two_values:
  "is_power_of_two 0 \<and> is_power_of_two 1 \<and> is_power_of_two 2 \<and> is_power_of_two 8
   \<and> is_power_of_two 256
   \<and> \<not> is_power_of_two (- 1) \<and> \<not> is_power_of_two 3 \<and> \<not> is_power_of_two 9
   \<and> \<not> is_power_of_two 257"
  by (simp add: is_power_of_two_def)

subsection \<open>Construction\<close>

lemma get_a_inverse_value_stored_ok:
  assumes "stored_ok stored"
  shows "fst (get_a_inverse_value stored a b) = xgcd_x a b"
    and "stored_ok (snd (get_a_inverse_value stored a b))"
  using assms
  by (auto simp: get_a_inverse_value_def stored_ok_def Let_def split: option.splits)

lemma stored_ok_empty: "stored_ok Map.empty"
  by (simp add: stored_ok_def)

lemma ReversibleLCG_init_Inl:
  "\<not> is_power_of_two m \<Longrightarrow> ReversibleLCG_init stored seed m a c d = Inl AssertionError"
  by (simp add: ReversibleLCG_init_def)

lemma ReversibleLCG_init_Inr:
  "is_power_of_two m \<Longrightarrow>
   ReversibleLCG_init stored seed m a c d =
     Inr (\<lparr>self_x = seed, self_m = m, self_a = a, self_c = c, self_d = d,
           self_a_inverse = fst (get_a_inverse_value stored a m), forward = True\<rparr>,
          snd (get_a_inverse_value stored a m))"
  by (simp add: ReversibleLCG_init_def split_beta)

lemma default_m_eq: "default_m = 2 ^ 63"
  by (simp add: default_m_def)

lemma is_power_of_two_default_m: "is_power_of_two default_m"
  unfolding default_m_eq by (rule is_power_of_two_exp)

lemma ReversibleLCG_default_Inr:
  "ReversibleLCG_default stored seed =
     Inr (\<lparr>self_x = seed, self_m = default_m, self_a = default_a, self_c = default_c,
           self_d = default_d,
           self_a_inverse = fst (get_a_inverse_value stored default_a default_m),
           forward = True\<rparr>,
          snd (get_a_inverse_value stored default_a default_m))"
  unfolding ReversibleLCG_default_def
  by (rule ReversibleLCG_init_Inr [OF is_power_of_two_default_m])

subsection \<open>Reference values\<close>

lemma call_n_next_lcg_42:
  "fst (call_n next_lcg 5
     \<lparr>self_x = 42, self_m = default_m, self_a = default_a, self_c = default_c,
      self_d = default_d, self_a_inverse = a_inv, forward = True\<rparr>) =
   Inr [293047021, 968358053, 1773127077, 560055359, 773728940]"
  by (simp add: numeral_eq_Suc next_lcg_def next_state_def py_rshift_def
      default_a_def default_m_def default_c_def default_d_def)

text \<open>
  C1: with the default parameters and seed 42, five calls of \<open>next\<close> in a row return
  293047021, 968358053, 1773127077, 560055359 and 773728940, in this order.
\<close>

theorem next_reference_values:
  "\<exists>g stored'. ReversibleLCG_default stored 42 = Inr (g, stored') \<and>
     fst (call_n next_lcg 5 g) = Inr [293047021, 968358053, 1773127077, 560055359, 773728940]"
proof -
  let ?g = "\<lparr>self_x = 42, self_m = default_m, self_a = default_a, self_c = default_c,
    self_d = default_d,
    self_a_inverse = fst (get_a_inverse_value stored default_a default_m), forward = True\<rparr>"
  have "ReversibleLCG_default stored 42 =
      Inr (?g, snd (get_a_inverse_value stored default_a default_m))"
    by (rule ReversibleLCG_default_Inr)
  moreover have "fst (call_n next_lcg 5 ?g) =
      Inr [293047021, 968358053, 1773127077, 560055359, 773728940]"
    by (rule call_n_next_lcg_42)
  ultimately show ?thesis by blast
qed

subsection \<open>A step forward and a step back\<close>

lemma step_back_mod:
  fixes x :: int
  assumes inverse: "(a_inv * a) mod M = 1 mod M"
  shows "(a_inv * ((a * x + c) mod M - c)) mod M = x mod M"
proof -
  have "(a_inv * ((a * x + c) mod M - c)) mod M = (a_inv * ((a * x + c) - c)) mod M"
    by (metis mod_diff_left_eq mod_mult_right_eq)
  also have "\<dots> = ((a_inv * a) * x) mod M"
    by (simp add: algebra_simps)
  also have "\<dots> = ((a_inv * a) mod M * x) mod M"
    by (simp add: mod_mult_left_eq)
  also have "\<dots> = (1 mod M * x) mod M"
    by (simp only: inverse)
  also have "\<dots> = x mod M"
    by (simp add: mod_mult_left_eq)
  finally show ?thesis .
qed

lemma and_default_m: "v AND (default_m - 1) = v mod default_m"
  unfolding default_m_eq by (rule and_exp_minus_1)

lemma default_inverse: "(xgcd_x default_a default_m * default_a) mod default_m = 1 mod default_m"
  by (simp add: xgcd_x_default) (simp add: default_a_def default_m_def)

lemma prev_next_default:
  assumes "self_m g = default_m" and "self_a g = default_a"
    and "self_a_inverse g = xgcd_x default_a default_m"
  shows "self_x (snd (prev_lcg (snd (next_lcg g)))) = self_x g mod 2 ^ 63"
proof -
  have "self_x (snd (prev_lcg (snd (next_lcg g)))) =
      (xgcd_x default_a default_m *
        ((default_a * self_x g + self_c g) mod default_m - self_c g)) mod default_m"
    by (simp add: prev_lcg_def next_lcg_def prev_state_def next_state_def assms Let_def
        and_default_m)
  also have "\<dots> = self_x g mod default_m"
    by (rule step_back_mod [OF default_inverse])
  finally show ?thesis by (simp add: default_m_eq)
qed

text \<open>
  C2, as amended: with the default parameters, \<open>next\<close> followed by \<open>prev\<close> leaves
  \<open>x\<close> at \<open>seed mod 2 ^ 63\<close>; this is the value before the two calls when the seed lies
  in \<open>[0, 2 ^ 63)\<close>.
\<close>

theorem next_then_prev_restores_state:
  assumes "stored_ok stored"
  shows "\<exists>g stored'. ReversibleLCG_default stored seed = Inr (g, stored') \<and>
     self_x g = seed \<and>
     self_x (snd (prev_lcg (snd (next_lcg g)))) = seed mod 2 ^ 63 \<and>
     (0 \<le> seed \<and> seed < 2 ^ 63 \<longrightarrow> self_x (snd (prev_lcg (snd (next_lcg g)))) = self_x g)"
proof -
  let ?g = "\<lparr>self_x = seed, self_m = default_m, self_a = default_a, self_c = default_c,
    self_d = default_d,
    self_a_inverse = fst (get_a_inverse_value stored default_a default_m), forward = True\<rparr>"
  have init: "ReversibleLCG_default stored seed =
      Inr (?g, snd (get_a_inverse_value stored default_a default_m))"
    by (rule ReversibleLCG_default_Inr)
  have restored: "self_x (snd (prev_lcg (snd (next_lcg ?g)))) = self_x ?g mod 2 ^ 63"
    by (rule prev_next_default) (simp_all add: get_a_inverse_value_stored_ok [OF assms])
  then have "self_x (snd (prev_lcg (snd (next_lcg ?g)))) = seed mod 2 ^ 63"
    by simp
  moreover have "0 \<le> seed \<and> seed < 2 ^ 63 \<longrightarrow>
      self_x (snd (prev_lcg (snd (next_lcg ?g)))) = self_x ?g"
    by (simp only: restored) simp
  moreover have "self_x ?g = seed" by simp
  ultimately show ?thesis using init by blast
qed

theorem next_then_prev_restores_state_witness:
  "stored_ok Map.empty \<and>
   (\<exists>g stored'. ReversibleLCG_default Map.empty 42 = Inr (g, stored') \<and>
      self_x g = 42 \<and> self_x (snd (prev_lcg (snd (next_lcg g)))) = 42)"
proof -
  from next_then_prev_restores_state [OF stored_ok_empty, of 42]
  obtain g stored' where "ReversibleLCG_default Map.empty 42 = Inr (g, stored')"
    and "self_x g = 42" and "self_x (snd (prev_lcg (snd (next_lcg g)))) = 42 mod 2 ^ 63"
    by blast
  then show ?thesis by (auto simp: stored_ok_empty)
qed

text \<open>
  The claim as written fails at seed -1: the two calls leave \<open>x\<close> at \<open>2 ^ 63 - 1\<close>.
\<close>

theorem next_then_prev_seed_minus_1:
  "ReversibleLCG_default Map.empty (- 1) =
     Inr (\<lparr>self_x = - 1, self_m = default_m, self_a = default_a, self_c = default_c,
           self_d = default_d, self_a_inverse = xgcd_x default_a default_m,
           forward = True\<rparr>,
          [(default_a, default_m) \<mapsto> xgcd_x default_a default_m]) \<and>
   self_x (snd (prev_lcg (snd (next_lcg
     \<lparr>self_x = - 1, self_m = default_m, self_a = default_a, self_c = default_c,
      self_d = default_d, self_a_inverse = xgcd_x default_a default_m,
      forward = True\<rparr>)))) = 9223372036854775807"
  by (simp add: ReversibleLCG_default_Inr get_a_inverse_value_def Let_def prev_next_default)

subsection \<open>The assertion on the modulus\<close>

lemma not_power_of_two_0: "\<not> power_of_two 0"
  by (simp add: power_of_two_def)

text \<open>
  C6, as amended: construction fails with the assertion error exactly when \<open>m\<close> is
  neither 0 nor a power of two; it succeeds, with \<open>x = seed\<close>, for every power of two
  and for \<open>m = 0\<close>.
\<close>

theorem ReversibleLCG_init_modulus:
  "(ReversibleLCG_init stored seed m a c d = Inl AssertionError
      \<longleftrightarrow> \<not> (m = 0 \<or> power_of_two m)) \<and>
   (m = 0 \<or> power_of_two m \<longrightarrow>
      (\<exists>g stored'. ReversibleLCG_init stored seed m a c d = Inr (g, stored') \<and>
         self_x g = seed \<and> self_m g = m))"
proof (cases "is_power_of_two m")
  case True
  then have "m = 0 \<or> power_of_two m"
    by (simp add: is_power_of_two_iff power_of_two_def)
  then show ?thesis
    by (simp add: ReversibleLCG_init_Inr [OF True])
next
  case False
  then have "\<not> (m = 0 \<or> power_of_two m)"
    by (simp add: is_power_of_two_iff power_of_two_def)
  then show ?thesis
    by (simp add: ReversibleLCG_init_Inl [OF False])
qed

theorem ReversibleLCG_init_modulus_witness:
  "power_of_two 8 \<and>
   (\<exists>g stored'. ReversibleLCG_init Map.empty 42 8 5 3 1 = Inr (g, stored') \<and>
      self_x g = 42 \<and> self_m g = 8) \<and>
   \<not> power_of_two 12 \<and>
   ReversibleLCG_init Map.empty 42 12 5 3 1 = Inl AssertionError"
proof -
  have "(8::int) = 2 ^ 3" by simp
  then have p8: "power_of_two 8" unfolding power_of_two_def by (rule exI)
  have "\<not> is_power_of_two 12" by (simp add: is_power_of_two_def)
  then have p12: "\<not> ((12::int) = 0 \<or> power_of_two 12)"
    by (simp add: is_power_of_two_iff power_of_two_def)
  from p8 ReversibleLCG_init_modulus [of Map.empty 42 8 5 3 1]
  have "\<exists>g stored'. ReversibleLCG_init Map.empty 42 8 5 3 1 = Inr (g, stored') \<and>
      self_x g = 42 \<and> self_m g = 8"
    by blast
  moreover from p12 ReversibleLCG_init_modulus [of Map.empty 42 12 5 3 1]
  have "ReversibleLCG_init Map.empty 42 12 5 3 1 = Inl AssertionError"
    by blast
  ultimately show ?thesis using p8 p12 by blast
qed

text \<open>
  The claim as written fails at \<open>m = 0\<close>: 0 is not a power of two, and the constructor
  returns a generator with modulus 0.
\<close>

theorem ReversibleLCG_init_modulus_0:
  "\<not> power_of_two 0 \<and>
   ReversibleLCG_init Map.empty 42 0 default_a default_c default_d =
     Inr (\<lparr>self_x = 42, self_m = 0, self_a = default_a, self_c = default_c,
           self_d = default_d, self_a_inverse = 1, forward = True\<rparr>,
          [(default_a, 0) \<mapsto> 1])"
  by (simp add: not_power_of_two_0 ReversibleLCG_init_Inr is_power_of_two_0
      get_a_inverse_value_def Let_def xgcd_x_def xgcd_loop_0)

subsection \<open>Calls of \<open>random\<close> that leave the generator alone\<close>

lemma random_body_peek: "snd (random_body g sz False i) = g"
  by (simp add: random_body_def Let_def split: option.splits sum.splits)

text \<open>
  C7: \<open>random\<close> with \<open>update=False\<close> leaves the generator as it found it, whatever
  \<open>size\<close> and \<open>increment\<close> are and whether the call returns or raises; a second such
  call therefore gives the result of the first.
\<close>

theorem random_peek_keeps_state:
  "snd (random_lcg g sz False inc) = g \<and>
   fst (random_lcg (snd (random_lcg g sz False inc)) sz False inc) =
     fst (random_lcg g sz False inc)"
proof -
  have "snd (random_lcg g sz False inc) = g"
    by (simp add: random_lcg_def random_body_peek split: option.splits)
  then show ?thesis by simp
qed

text \<open>
  C8: \<open>random\<close> with an \<open>increment\<close> other than -1, 1 and \<open>None\<close> raises the assertion
  error and leaves \<open>x\<close>, the direction and every other field as they were.
\<close>

theorem random_bad_increment:
  "i \<noteq> - 1 \<Longrightarrow> i \<noteq> 1 \<Longrightarrow> random_lcg g sz update (Some i) = (Inl AssertionError, g)"
  by (simp add: random_lcg_def)

theorem random_bad_increment_witness:
  "(2::int) \<noteq> - 1 \<and> (2::int) \<noteq> 1 \<and>
   random_lcg \<lparr>self_x = 42, self_m = default_m, self_a = default_a, self_c = default_c,
      self_d = default_d, self_a_inverse = xgcd_x default_a default_m, forward = True\<rparr>
     (Some 3) True (Some 2) =
   (Inl AssertionError,
    \<lparr>self_x = 42, self_m = default_m, self_a = default_a, self_c = default_c,
      self_d = default_d, self_a_inverse = xgcd_x default_a default_m, forward = True\<rparr>)"
proof -
  have ne: "(2::int) \<noteq> - 1" "(2::int) \<noteq> 1" by simp_all
  from random_bad_increment [OF ne] ne show ?thesis by blast
qed

subsection \<open>Bulk generation and repeated calls\<close>

lemma stake_next_state_generator_in_range:
  "0 < m \<Longrightarrow> list_all (\<lambda>v. 0 \<le> v \<and> v < m) (stake n (next_state_generator x m a c))"
  by (induction n arbitrary: x) (simp_all add: and_pred_in_range)

lemma stake_prev_state_generator_in_range:
  "0 < m \<Longrightarrow> list_all (\<lambda>v. 0 \<le> v \<and> v < m) (stake n (prev_state_generator x m a_inv c))"
  by (induction n arbitrary: x) (simp_all add: and_pred_in_range)

lemma list_all_less_mono:
  fixes m :: int
  assumes "list_all (\<lambda>v. 0 \<le> v \<and> v < m) xs" and "m \<le> M"
  shows "list_all (\<lambda>v. 0 \<le> v \<and> v < M) xs"
  using assms by (induction xs) auto

lemma fromiter_uint64_Inr:
  assumes "0 \<le> n" and "list_all (\<lambda>v. 0 \<le> v \<and> v < 2 ^ 64) (stake (nat n) gen)"
  shows "fromiter_uint64 gen n = Inr (stake (nat n) gen)"
  using assms by (simp add: fromiter_uint64_def)

lemma last_Cons_Cons: "last (x # y # ys) = last (y # ys)"
  by simp

lemma call_n_next_lcg:
  assumes "0 \<le> self_d g"
  shows "call_n next_lcg n g =
    (Inr (map (drop_bit (nat (self_d g)))
       (stake n (next_state_generator (self_x g) (self_m g) (self_a g) (self_c g)))),
     g\<lparr>self_x := last (self_x g #
       stake n (next_state_generator (self_x g) (self_m g) (self_a g) (self_c g)))\<rparr>)"
  using assms
proof (induction n arbitrary: g)
  case 0
  show ?case by simp
next
  case (Suc n)
  let ?g' = "g\<lparr>self_x := next_state g\<rparr>"
  have step: "next_lcg g = (Inr (drop_bit (nat (self_d g)) (next_state g)), ?g')"
    using Suc.prems by (simp add: next_lcg_def py_rshift_def)
  have unroll: "stake (Suc n) (next_state_generator (self_x g) (self_m g) (self_a g) (self_c g)) =
      next_state g # stake n (next_state_generator (next_state g) (self_m g) (self_a g) (self_c g))"
    by (simp add: next_state_def)
  have rest: "call_n next_lcg n ?g' =
      (Inr (map (drop_bit (nat (self_d g)))
         (stake n (next_state_generator (next_state g) (self_m g) (self_a g) (self_c g)))),
       g\<lparr>self_x := last (next_state g #
         stake n (next_state_generator (next_state g) (self_m g) (self_a g) (self_c g)))\<rparr>)"
    using Suc.IH [of ?g'] Suc.prems by (simp del: last.simps)
  show ?case
    unfolding unroll by (simp add: step rest last_Cons_Cons del: last.simps)
qed

lemma call_n_prev_lcg:
  assumes "0 \<le> self_d g"
  shows "call_n prev_lcg n g =
    (Inr (map (drop_bit (nat (self_d g)))
       (stake n (prev_state_generator (self_x g) (self_m g) (self_a_inverse g) (self_c g)))),
     g\<lparr>self_x := last (self_x g #
       stake n (prev_state_generator (self_x g) (self_m g) (self_a_inverse g) (self_c g)))\<rparr>)"
  using assms
proof (induction n arbitrary: g)
  case 0
  show ?case by simp
next
  case (Suc n)
  let ?g' = "g\<lparr>self_x := prev_state g\<rparr>"
  have step: "prev_lcg g = (Inr (drop_bit (nat (self_d g)) (prev_state g)), ?g')"
    using Suc.prems by (simp add: prev_lcg_def py_rshift_def)
  have unroll: "stake (Suc n) (prev_state_generator (self_x g) (self_m g) (self_a_inverse g) (self_c g)) =
      prev_state g # stake n (prev_state_generator (prev_state g) (self_m g) (self_a_inverse g) (self_c g))"
    by (simp add: prev_state_def)
  have rest: "call_n prev_lcg n ?g' =
      (Inr (map (drop_bit (nat (self_d g)))
         (stake n (prev_state_generator (prev_state g) (self_m g) (self_a_inverse g) (self_c g)))),
       g\<lparr>self_x := last (prev_state g #
         stake n (prev_state_generator (prev_state g) (self_m g) (self_a_inverse g) (self_c g)))\<rparr>)"
    using Suc.IH [of ?g'] Suc.prems by (simp del: last.simps)
  show ?case
    unfolding unroll by (simp add: step rest last_Cons_Cons del: last.simps)
qed

lemma forward_next_lcg: "forward (snd (next_lcg g)) = forward g"
  by (simp add: next_lcg_def)

lemma forward_prev_lcg: "forward (snd (prev_lcg g)) = forward g"
  by (simp add: prev_lcg_def)

lemma call_n_dunder_next:
  "call_n dunder_next n g = (if forward g then call_n next_lcg n g else call_n prev_lcg n g)"
proof (induction n arbitrary: g)
  case 0
  show ?case by simp
next
  case (Suc n)
  show ?case
  proof (cases "forward g")
    case True
    obtain r g' where step: "next_lcg g = (r, g')" by (cases "next_lcg g")
    with forward_next_lcg [of g] True have "forward g'" by simp
    then have "call_n dunder_next n g' = call_n next_lcg n g'" by (simp add: Suc.IH)
    moreover from True step have "dunder_next g = (r, g')" by (simp add: dunder_next_def)
    ultimately show ?thesis
      using True step by (cases r) simp_all
  next
    case False
    obtain r g' where step: "prev_lcg g = (r, g')" by (cases "prev_lcg g")
    with forward_prev_lcg [of g] False have "\<not> forward g'" by simp
    then have "call_n dunder_next n g' = call_n prev_lcg n g'" by (simp add: Suc.IH)
    moreover from False step have "dunder_next g = (r, g')" by (simp add: dunder_next_def)
    ultimately show ?thesis
      using False step by (cases r) simp_all
  qed
qed

lemma random_body_bulk_next:
  assumes "0 < self_m g" and "self_m g \<le> 2 ^ 64" and "0 \<le> self_d g" and "1 \<le> n"
    and "self_d g < 2 ^ 64"
  shows "random_body g (Some n) update 1 =
    (Inr (Array (map (drop_bit (nat (self_d g)))
       (stake (nat n) (next_state_generator (self_x g) (self_m g) (self_a g) (self_c g))))),
     if update
     then g\<lparr>self_x := last (self_x g #
       stake (nat n) (next_state_generator (self_x g) (self_m g) (self_a g) (self_c g)))\<rparr>
     else g)"
proof -
  let ?xs = "stake (nat n) (next_state_generator (self_x g) (self_m g) (self_a g) (self_c g))"
  have "list_all (\<lambda>v. 0 \<le> v \<and> v < 2 ^ 64) ?xs"
    by (rule list_all_less_mono [OF stake_next_state_generator_in_range]) (rule assms)+
  with assms(4) have read: "fromiter_uint64
      (next_state_generator (self_x g) (self_m g) (self_a g) (self_c g)) n = Inr ?xs"
    by (intro fromiter_uint64_Inr) simp_all
  from assms(4) have nonempty: "?xs \<noteq> []" by simp
  then have "last (self_x g # ?xs) = last ?xs" by (rule last_ConsR)
  with nonempty assms(3) assms(5) show ?thesis
    by (simp add: random_body_def read array_rshift_def Let_def del: last.simps stake_invert_Nil)
qed

lemma random_body_bulk_prev:
  assumes "0 < self_m g" and "self_m g \<le> 2 ^ 64" and "0 \<le> self_d g" and "1 \<le> n"
    and "self_d g < 2 ^ 64"
  shows "random_body g (Some n) update (- 1) =
    (Inr (Array (map (drop_bit (nat (self_d g)))
       (stake (nat n)
          (prev_state_generator (self_x g) (self_m g) (self_a_inverse g) (self_c g))))),
     if update
     then g\<lparr>self_x := last (self_x g #
       stake (nat n)
         (prev_state_generator (self_x g) (self_m g) (self_a_inverse g) (self_c g)))\<rparr>
     else g)"
proof -
  let ?xs = "stake (nat n)
    (prev_state_generator (self_x g) (self_m g) (self_a_inverse g) (self_c g))"
  have "list_all (\<lambda>v. 0 \<le> v \<and> v < 2 ^ 64) ?xs"
    by (rule list_all_less_mono [OF stake_prev_state_generator_in_range]) (rule assms)+
  with assms(4) have read: "fromiter_uint64
      (prev_state_generator (self_x g) (self_m g) (self_a_inverse g) (self_c g)) n = Inr ?xs"
    by (intro fromiter_uint64_Inr) simp_all
  from assms(4) have nonempty: "?xs \<noteq> []" by simp
  then have "last (self_x g # ?xs) = last ?xs" by (rule last_ConsR)
  with nonempty assms(3) assms(5) show ?thesis
    by (simp add: random_body_def read array_rshift_def Let_def del: last.simps stake_invert_Nil)
qed

text \<open>
  The bulk call against \<open>n\<close> calls of a stepping method, for a generator whose modulus
  fits an unsigned 64-bit integer: the same values, and the same fields except the
  direction, which \<open>random\<close> sets when it is given an increment.
\<close>

lemma random_lcg_bulk_next:
  assumes "0 < self_m g" and "self_m g \<le> 2 ^ 64" and "0 \<le> self_d g" and "1 \<le> n"
    and "self_d g < 2 ^ 64"
  shows "\<exists>vs. fst (call_n next_lcg (nat n) g) = Inr vs \<and>
      fst (random_lcg g (Some n) update (Some 1)) = Inr (Array vs)"
    and "self_x (snd (random_lcg g (Some n) True (Some 1))) =
      self_x (snd (call_n next_lcg (nat n) g))"
proof -
  let ?xs = "stake (nat n) (next_state_generator (self_x g) (self_m g) (self_a g) (self_c g))"
  have commit: "random_body (g\<lparr>forward := True\<rparr>) (Some n) True 1 =
      (Inr (Array (map (drop_bit (nat (self_d g))) ?xs)),
       g\<lparr>forward := True, self_x := last (self_x g # ?xs)\<rparr>)"
    using random_body_bulk_next [of "g\<lparr>forward := True\<rparr>" n True] assms
    by (simp del: last.simps)
  have peek: "random_body g (Some n) False 1 =
      (Inr (Array (map (drop_bit (nat (self_d g))) ?xs)), g)"
    using random_body_bulk_next [OF assms, of False] by simp
  have calls: "call_n next_lcg (nat n) g =
      (Inr (map (drop_bit (nat (self_d g))) ?xs), g\<lparr>self_x := last (self_x g # ?xs)\<rparr>)"
    by (rule call_n_next_lcg [OF assms(3)])
  show "\<exists>vs. fst (call_n next_lcg (nat n) g) = Inr vs \<and>
      fst (random_lcg g (Some n) update (Some 1)) = Inr (Array vs)"
    by (cases update) (simp_all add: random_lcg_def commit peek calls del: last.simps)
  show "self_x (snd (random_lcg g (Some n) True (Some 1))) =
      self_x (snd (call_n next_lcg (nat n) g))"
    by (simp add: random_lcg_def commit calls del: last.simps)
qed

lemma random_lcg_bulk_prev:
  assumes "0 < self_m g" and "self_m g \<le> 2 ^ 64" and "0 \<le> self_d g" and "1 \<le> n"
    and "self_d g < 2 ^ 64"
  shows "\<exists>vs. fst (call_n prev_lcg (nat n) g) = Inr vs \<and>
      fst (random_lcg g (Some n) update (Some (- 1))) = Inr (Array vs)"
    and "self_x (snd (random_lcg g (Some n) True (Some (- 1)))) =
      self_x (snd (call_n prev_lcg (nat n) g))"
proof -
  let ?xs = "stake (nat n) (prev_state_generator (self_x g) (self_m g) (self_a_inverse g) (self_c g))"
  have commit: "random_body (g\<lparr>forward := False\<rparr>) (Some n) True (- 1) =
      (Inr (Array (map (drop_bit (nat (self_d g))) ?xs)),
       g\<lparr>forward := False, self_x := last (self_x g # ?xs)\<rparr>)"
    using random_body_bulk_prev [of "g\<lparr>forward := False\<rparr>" n True] assms
    by (simp del: last.simps)
  have peek: "random_body g (Some n) False (- 1) =
      (Inr (Array (map (drop_bit (nat (self_d g))) ?xs)), g)"
    using random_body_bulk_prev [OF assms, of False] by simp
  have calls: "call_n prev_lcg (nat n) g =
      (Inr (map (drop_bit (nat (self_d g))) ?xs), g\<lparr>self_x := last (self_x g # ?xs)\<rparr>)"
    by (rule call_n_prev_lcg [OF assms(3)])
  show "\<exists>vs. fst (call_n prev_lcg (nat n) g) = Inr vs \<and>
      fst (random_lcg g (Some n) update (Some (- 1))) = Inr (Array vs)"
    by (cases update) (simp_all add: random_lcg_def commit peek calls del: last.simps)
  show "self_x (snd (random_lcg g (Some n) True (Some (- 1)))) =
      self_x (snd (call_n prev_lcg (nat n) g))"
    by (simp add: random_lcg_def commit calls del: last.simps)
qed

lemma random_lcg_bulk_None:
  assumes "0 < self_m g" and "self_m g \<le> 2 ^ 64" and "0 \<le> self_d g" and "1 \<le> n"
    and "self_d g < 2 ^ 64"
  shows "\<exists>vs. fst (call_n dunder_next (nat n) g) = Inr vs \<and>
      fst (random_lcg g (Some n) update None) = Inr (Array vs)"
    and "self_x (snd (random_lcg g (Some n) True None)) =
      self_x (snd (call_n dunder_next (nat n) g))"
proof -
  have body: "random_lcg g (Some n) u None =
      random_body g (Some n) u (if forward g then 1 else - 1)" for u
    by (simp add: random_lcg_def)
  show "\<exists>vs. fst (call_n dunder_next (nat n) g) = Inr vs \<and>
      fst (random_lcg g (Some n) update None) = Inr (Array vs)"
    by (simp add: body call_n_dunder_next
        random_body_bulk_next [OF assms] call_n_next_lcg [OF assms(3)]
        random_body_bulk_prev [OF assms] call_n_prev_lcg [OF assms(3)])
  show "self_x (snd (random_lcg g (Some n) True None)) =
      self_x (snd (call_n dunder_next (nat n) g))"
    by (simp add: body call_n_dunder_next
        random_body_bulk_next [OF assms] call_n_next_lcg [OF assms(3)]
        random_body_bulk_prev [OF assms] call_n_prev_lcg [OF assms(3)] del: last.simps)
qed

lemma default_parameters_bounds:
  assumes "default_parameters g"
  shows "0 < self_m g" and "self_m g \<le> 2 ^ 64" and "0 \<le> self_d g"
    and "self_d g < 2 ^ 64"
  using assms by (simp_all add: default_parameters_def default_m_def default_d_def)

text \<open>
  C3: for every count \<open>n \<ge> 1\<close>, \<open>random(size=n)\<close> returns the values that \<open>n\<close> calls
  of the scalar method of its direction return from the same state, in the same
  order: \<open>next\<close> for increment 1, \<open>prev\<close> for increment -1, and \<open>__next__\<close>, which
  follows the direction of the generator, without an increment. With \<open>update=True\<close>
  it leaves \<open>x\<close> where the \<open>n\<close> calls leave it.
\<close>

theorem random_size_equals_scalar_calls:
  assumes "default_parameters g" and "1 \<le> n"
  shows
    "(\<exists>vs. fst (call_n next_lcg (nat n) g) = Inr vs \<and>
        fst (random_lcg g (Some n) update (Some 1)) = Inr (Array vs)) \<and>
     self_x (snd (random_lcg g (Some n) True (Some 1))) =
       self_x (snd (call_n next_lcg (nat n) g)) \<and>
     (\<exists>vs. fst (call_n prev_lcg (nat n) g) = Inr vs \<and>
        fst (random_lcg g (Some n) update (Some (- 1))) = Inr (Array vs)) \<and>
     self_x (snd (random_lcg g (Some n) True (Some (- 1)))) =
       self_x (snd (call_n prev_lcg (nat n) g)) \<and>
     (\<exists>vs. fst (call_n dunder_next (nat n) g) = Inr vs \<and>
        fst (random_lcg g (Some n) update None) = Inr (Array vs)) \<and>
     self_x (snd (random_lcg g (Some n) True None)) =
       self_x (snd (call_n dunder_next (nat n) g))"
proof -
  note bounds = default_parameters_bounds(1-3) [OF assms(1)] assms(2)
    default_parameters_bounds(4) [OF assms(1)]
  show ?thesis
    by (intro conjI random_lcg_bulk_next [OF bounds] random_lcg_bulk_prev [OF bounds]
        random_lcg_bulk_None [OF bounds])
qed

lemma call_n_next_lcg_42_3:
  "fst (call_n next_lcg 3
     \<lparr>self_x = 42, self_m = default_m, self_a = default_a, self_c = default_c,
      self_d = default_d, self_a_inverse = a_inv, forward = True\<rparr>) =
   Inr [293047021, 968358053, 1773127077]"
  by (simp add: numeral_eq_Suc next_lcg_def next_state_def py_rshift_def
      default_a_def default_m_def default_c_def default_d_def)

theorem random_size_equals_scalar_calls_witness:
  "default_parameters
     \<lparr>self_x = 42, self_m = default_m, self_a = default_a, self_c = default_c,
      self_d = default_d, self_a_inverse = xgcd_x default_a default_m, forward = True\<rparr> \<and>
   (1::int) \<le> 3 \<and>
   fst (random_lcg
     \<lparr>self_x = 42, self_m = default_m, self_a = default_a, self_c = default_c,
      self_d = default_d, self_a_inverse = xgcd_x default_a default_m, forward = True\<rparr>
     (Some 3) True (Some 1)) = Inr (Array [293047021, 968358053, 1773127077])"
proof -
  let ?g = "\<lparr>self_x = 42, self_m = default_m, self_a = default_a, self_c = default_c,
    self_d = default_d, self_a_inverse = xgcd_x default_a default_m, forward = True\<rparr>"
  have pars: "default_parameters ?g" by (simp add: default_parameters_def)
  have count: "(1::int) \<le> 3" by simp
  from random_size_equals_scalar_calls [OF pars count, of True]
  obtain vs where "fst (call_n next_lcg (nat 3) ?g) = Inr vs"
    and "fst (random_lcg ?g (Some 3) True (Some 1)) = Inr (Array vs)"
    by blast
  moreover have "nat 3 = (3::nat)" by simp
  ultimately have "fst (random_lcg ?g (Some 3) True (Some 1)) =
      Inr (Array [293047021, 968358053, 1773127077])"
    by (simp add: call_n_next_lcg_42_3)
  with pars count show ?thesis by blast
qed

subsection \<open>The range of the state\<close>

lemma in_range_next_lcg: "0 < self_m g \<Longrightarrow> in_range (snd (next_lcg g))"
  by (simp add: in_range_def next_lcg_def next_state_def and_pred_in_range)

lemma in_range_prev_lcg: "0 < self_m g \<Longrightarrow> in_range (snd (prev_lcg g))"
  by (simp add: in_range_def prev_lcg_def prev_state_def and_pred_in_range)

lemma in_range_dunder_next: "0 < self_m g \<Longrightarrow> in_range (snd (dunder_next g))"
  by (simp add: dunder_next_def in_range_next_lcg in_range_prev_lcg)

lemma last_in_range:
  fixes m :: int
  assumes "list_all (\<lambda>v. 0 \<le> v \<and> v < m) xs" and "xs \<noteq> []"
  shows "0 \<le> last xs \<and> last xs < m"
proof -
  from assms(2) have "last xs \<in> set xs" by (rule last_in_set)
  with assms(1) show ?thesis by (simp add: list_all_iff)
qed

lemma fromiter_uint64_stake:
  "fromiter_uint64 gen n = Inr xs \<Longrightarrow> xs = stake (nat n) gen"
  by (simp add: fromiter_uint64_def Let_def split: if_splits)

lemma stored_last_in_range:
  assumes "0 < self_m g"
    and "fromiter_uint64
      (if i = 1
       then next_state_generator (self_x g) (self_m g) (self_a g) (self_c g)
       else prev_state_generator (self_x g) (self_m g) (self_a_inverse g) (self_c g)) n =
      Inr xs"
    and "xs \<noteq> []"
  shows "in_range (g\<lparr>self_x := last xs\<rparr>)"
proof -
  have "list_all (\<lambda>v. 0 \<le> v \<and> v < self_m g) xs"
    unfolding fromiter_uint64_stake [OF assms(2)]
    by (simp add: stake_next_state_generator_in_range [OF assms(1)]
        stake_prev_state_generator_in_range [OF assms(1)])
  with assms(3) show ?thesis
    by (simp add: in_range_def last_in_range)
qed

text \<open>
  What a call of \<open>random\<close> can do to the generator below the test of \<open>increment\<close>: leave
  it alone, or store a masked state.
\<close>

lemma random_body_state:
  assumes "0 < self_m g"
  shows "snd (random_body g sz update i) = g \<or> in_range (snd (random_body g sz update i))"
proof (cases sz)
  case None
  then show ?thesis
    using in_range_dunder_next [OF assms]
    by (simp add: random_body_def split_beta)
next
  case (Some n)
  let ?gen = "if i = 1
    then next_state_generator (self_x g) (self_m g) (self_a g) (self_c g)
    else prev_state_generator (self_x g) (self_m g) (self_a_inverse g) (self_c g)"
  show ?thesis
  proof (cases "fromiter_uint64 ?gen n")
    case (Inl e)
    with Some show ?thesis by (simp add: random_body_def)
  next
    case (Inr xs)
    then have "xs \<noteq> [] \<Longrightarrow> in_range (g\<lparr>self_x := last xs\<rparr>)"
      by (rule stored_last_in_range [OF assms])
    with Some Inr show ?thesis
      by (auto simp: random_body_def Let_def)
  qed
qed

lemma random_body_commit:
  assumes "0 < self_m g" and "fst (random_body g sz True i) = Inr r"
  shows "in_range (snd (random_body g sz True i))"
proof (cases sz)
  case None
  then show ?thesis
    using in_range_dunder_next [OF assms(1)]
    by (simp add: random_body_def split_beta)
next
  case (Some n)
  let ?gen = "if i = 1
    then next_state_generator (self_x g) (self_m g) (self_a g) (self_c g)
    else prev_state_generator (self_x g) (self_m g) (self_a_inverse g) (self_c g)"
  show ?thesis
  proof (cases "fromiter_uint64 ?gen n")
    case (Inl e)
    with Some assms(2) show ?thesis by (simp add: random_body_def)
  next
    case (Inr xs)
    with Some assms(2) have "xs \<noteq> []"
      by (auto simp: random_body_def Let_def)
    with Inr have "in_range (g\<lparr>self_x := last xs\<rparr>)"
      by (intro stored_last_in_range [OF assms(1)])
    with Some Inr \<open>xs \<noteq> []\<close> show ?thesis
      by (simp add: random_body_def Let_def)
  qed
qed

lemma self_m_random_body: "self_m (snd (random_body g sz update i)) = self_m g"
  by (simp add: random_body_def Let_def dunder_next_def next_lcg_def prev_lcg_def split_beta
      split: option.splits sum.splits)

lemma self_m_do_call: "self_m (do_call cl g) = self_m g"
  by (cases cl)
    (simp_all add: next_lcg_def prev_lcg_def dunder_next_def reverse_def random_lcg_def
      self_m_random_body split: option.splits)

lemma random_lcg_state:
  assumes "0 < self_m g"
  shows "self_x (snd (random_lcg g sz update inc)) = self_x g \<or>
    in_range (snd (random_lcg g sz update inc))"
proof (cases inc)
  case None
  with random_body_state [OF assms, of sz update "if forward g then 1 else - 1"]
  show ?thesis by (auto simp: random_lcg_def)
next
  case (Some i)
  show ?thesis
  proof (cases "i \<noteq> - 1 \<and> i \<noteq> 1")
    case True
    with Some show ?thesis by (simp add: random_lcg_def)
  next
    case False
    let ?g = "if update then g\<lparr>forward := (i = 1)\<rparr> else g"
    from assms have "0 < self_m ?g" by simp
    from random_body_state [OF this, of sz update i] Some False
    show ?thesis by (auto simp: random_lcg_def)
  qed
qed

lemma random_lcg_commit:
  assumes "0 < self_m g" and "fst (random_lcg g sz True inc) = Inr r"
  shows "in_range (snd (random_lcg g sz True inc))"
proof (cases inc)
  case None
  with assms random_body_commit [of g sz "if forward g then 1 else - 1" r]
  show ?thesis by (simp add: random_lcg_def)
next
  case (Some i)
  show ?thesis
  proof (cases "i \<noteq> - 1 \<and> i \<noteq> 1")
    case True
    with Some assms(2) show ?thesis by (simp add: random_lcg_def)
  next
    case False
    from assms(1) have "0 < self_m (g\<lparr>forward := (i = 1)\<rparr>)" by simp
    from random_body_commit [OF this, of sz i r] Some False assms(2)
    show ?thesis by (auto simp: random_lcg_def)
  qed
qed

lemma stepping_call_in_range:
  assumes "0 < self_m g" and "stepping_call cl g"
  shows "in_range (do_call cl g)"
proof (cases cl)
  case (Random sz update inc)
  with assms(2) obtain r where "update" and "fst (random_lcg g sz True inc) = Inr r"
    by (auto split: sum.splits)
  with Random random_lcg_commit [OF assms(1)] show ?thesis by simp
qed (use assms in \<open>simp_all add: in_range_next_lcg in_range_prev_lcg in_range_dunder_next\<close>)

lemma do_call_in_range:
  assumes "0 < self_m g" and "in_range g"
  shows "in_range (do_call cl g)"
proof (cases cl)
  case Reverse
  with assms(2) show ?thesis by (simp add: reverse_def in_range_def)
next
  case (Random sz update inc)
  from random_lcg_state [OF assms(1), of sz update inc] assms(2) Random
  show ?thesis by (auto simp: in_range_def self_m_do_call [of cl g, symmetric])
qed (use assms in \<open>simp_all add: in_range_next_lcg in_range_prev_lcg in_range_dunder_next\<close>)

lemma self_m_do_calls: "self_m (do_calls cls g) = self_m g"
  by (induction cls arbitrary: g) (simp_all add: self_m_do_call)

lemma do_calls_in_range:
  assumes "0 < self_m g" and "in_range g"
  shows "in_range (do_calls cls g)"
  using assms
proof (induction cls arbitrary: g)
  case Nil
  then show ?case by simp
next
  case (Cons cl cls)
  from Cons.prems have "in_range (do_call cl g)" by (rule do_call_in_range)
  moreover from Cons.prems(1) have "0 < self_m (do_call cl g)" by (simp add: self_m_do_call)
  ultimately show ?case by (simp add: Cons.IH)
qed

lemma do_calls_append: "do_calls (cls @ cls') g = do_calls cls' (do_calls cls g)"
  by (induction cls arbitrary: g) simp_all

text \<open>
  C5, as amended: for a modulus \<open>m > 0\<close>, every state transition masks: the state that
  \<open>next\<close> stores, the state that \<open>prev\<close> stores and every state the two generators
  of bulk generation yield lie in \<open>[0, m)\<close>, whatever the state before was.
\<close>

theorem transitions_mask_state:
  assumes "0 < self_m g"
  shows "in_range (snd (next_lcg g)) \<and> in_range (snd (prev_lcg g)) \<and>
    list_all (\<lambda>v. 0 \<le> v \<and> v < self_m g)
      (stake n (next_state_generator (self_x g) (self_m g) (self_a g) (self_c g))) \<and>
    list_all (\<lambda>v. 0 \<le> v \<and> v < self_m g)
      (stake n (prev_state_generator (self_x g) (self_m g) (self_a_inverse g) (self_c g)))"
  by (intro conjI in_range_next_lcg in_range_prev_lcg stake_next_state_generator_in_range
      stake_prev_state_generator_in_range assms)

theorem transitions_mask_state_witness:
  "0 < self_m
     \<lparr>self_x = - 1, self_m = 8, self_a = 5, self_c = 3, self_d = 1,
      self_a_inverse = - 3, forward = True\<rparr> \<and>
   in_range (snd (next_lcg
     \<lparr>self_x = - 1, self_m = 8, self_a = 5, self_c = 3, self_d = 1,
      self_a_inverse = - 3, forward = True\<rparr>)) \<and>
   in_range (snd (prev_lcg
     \<lparr>self_x = - 1, self_m = 8, self_a = 5, self_c = 3, self_d = 1,
      self_a_inverse = - 3, forward = True\<rparr>)) \<and>
   list_all (\<lambda>v. 0 \<le> v \<and> v < 8) (stake 2 (next_state_generator (- 1) 8 5 3)) \<and>
   list_all (\<lambda>v. 0 \<le> v \<and> v < 8) (stake 2 (prev_state_generator (- 1) 8 (- 3) 3))"
proof -
  let ?g = "\<lparr>self_x = - 1, self_m = 8, self_a = 5, self_c = 3, self_d = 1,
    self_a_inverse = - 3, forward = True\<rparr>"
  have pos: "0 < self_m ?g" by simp
  from transitions_mask_state [OF pos, of 2] pos show ?thesis by simp
qed

text \<open>
  The claim as written fails at construction: with seed -1 the constructor returns a
  generator whose \<open>x\<close> is -1.
\<close>

theorem constructed_state_out_of_range:
  "ReversibleLCG_default Map.empty (- 1) =
     Inr (\<lparr>self_x = - 1, self_m = default_m, self_a = default_a, self_c = default_c,
           self_d = default_d, self_a_inverse = xgcd_x default_a default_m,
           forward = True\<rparr>,
          [(default_a, default_m) \<mapsto> xgcd_x default_a default_m]) \<and>
   \<not> in_range
     \<lparr>self_x = - 1, self_m = default_m, self_a = default_a, self_c = default_c,
      self_d = default_d, self_a_inverse = xgcd_x default_a default_m, forward = True\<rparr>"
  by (simp add: ReversibleLCG_default_Inr get_a_inverse_value_def Let_def in_range_def)

text \<open>
  C10, as amended: for every seed the constructor stores \<open>x = seed\<close> as it is; for a
  modulus \<open>m > 0\<close> that the constructor accepts, once a stepping operation has run,
  after whatever calls came before it, \<open>x\<close> lies in \<open>[0, m)\<close>, and it still does after
  any further calls.
\<close>

theorem seed_unmasked_then_state_in_range:
  assumes "0 < m" and "is_power_of_two m"
  shows "\<exists>g stored'. ReversibleLCG_init stored seed m a c d = Inr (g, stored') \<and>
    self_x g = seed \<and>
    (\<forall>pre cl post. stepping_call cl (do_calls pre g) \<longrightarrow>
       in_range (do_calls (pre @ cl # post) g))"
proof -
  let ?g = "\<lparr>self_x = seed, self_m = m, self_a = a, self_c = c, self_d = d,
    self_a_inverse = fst (get_a_inverse_value stored a m), forward = True\<rparr>"
  have init: "ReversibleLCG_init stored seed m a c d =
      Inr (?g, snd (get_a_inverse_value stored a m))"
    by (rule ReversibleLCG_init_Inr [OF assms(2)])
  have "in_range (do_calls (pre @ cl # post) ?g)"
    if step: "stepping_call cl (do_calls pre ?g)" for pre cl post
  proof -
    from assms(1) have pos: "0 < self_m (do_calls pre ?g)"
      by (simp add: self_m_do_calls)
    then have "in_range (do_call cl (do_calls pre ?g))"
      using step by (rule stepping_call_in_range)
    moreover from pos have "0 < self_m (do_call cl (do_calls pre ?g))"
      by (simp add: self_m_do_call)
    ultimately have "in_range (do_calls post (do_call cl (do_calls pre ?g)))"
      by (intro do_calls_in_range)
    then show ?thesis by (simp add: do_calls_append)
  qed
  moreover have "self_x ?g = seed" by simp
  ultimately show ?thesis using init by blast
qed

theorem seed_unmasked_then_state_in_range_witness:
  "(0::int) < 8 \<and> is_power_of_two 8 \<and>
   (\<exists>g stored'. ReversibleLCG_init Map.empty (- 1) 8 5 3 1 = Inr (g, stored') \<and>
      self_x g = - 1 \<and> in_range (do_calls [Reverse, Next, Prev] g))"
proof -
  have pos: "(0::int) < 8" by simp
  have pow: "is_power_of_two 8" by (simp add: is_power_of_two_def)
  from seed_unmasked_then_state_in_range [OF pos pow, of Map.empty "- 1" 5 3 1]
  obtain g stored' where init: "ReversibleLCG_init Map.empty (- 1) 8 5 3 1 = Inr (g, stored')"
    and seed: "self_x g = - 1"
    and steps: "\<And>pre cl post. stepping_call cl (do_calls pre g) \<Longrightarrow>
      in_range (do_calls (pre @ cl # post) g)"
    by blast
  have "stepping_call Next (do_calls [Reverse] g)" by simp
  from steps [OF this, of "[Prev]"] have "in_range (do_calls [Reverse, Next, Prev] g)"
    by simp
  with pos pow init seed show ?thesis by blast
qed

text \<open>
  The claim as written fails at \<open>m = 0\<close>, which the constructor accepts: no step masks,
  and after \<open>next\<close> from seed 42 the state is \<open>a * 42 + c\<close>, outside the empty range
  \<open>[0, 0)\<close>.
\<close>

theorem modulus_0_state_out_of_range:
  "ReversibleLCG_init Map.empty 42 0 default_a default_c default_d =
     Inr (\<lparr>self_x = 42, self_m = 0, self_a = default_a, self_c = default_c,
           self_d = default_d, self_a_inverse = 1, forward = True\<rparr>,
          [(default_a, 0) \<mapsto> 1]) \<and>
   stepping_call Next
     \<lparr>self_x = 42, self_m = 0, self_a = default_a, self_c = default_c,
      self_d = default_d, self_a_inverse = 1, forward = True\<rparr> \<and>
   self_x (do_call Next
     \<lparr>self_x = 42, self_m = 0, self_a = default_a, self_c = default_c,
      self_d = default_d, self_a_inverse = 1, forward = True\<rparr>) = 268736416442454269617 \<and>
   \<not> in_range (do_call Next
     \<lparr>self_x = 42, self_m = 0, self_a = default_a, self_c = default_c,
      self_d = default_d, self_a_inverse = 1, forward = True\<rparr>)"
  by (simp add: ReversibleLCG_init_Inr is_power_of_two_0 get_a_inverse_value_def Let_def
      xgcd_x_def xgcd_loop_0 next_lcg_def next_state_def in_range_def
      default_a_def default_c_def)

end
